theory Spec2Isabelle
  imports Main "HOL-Library.Word"
begin

section \<open>The statistics handle of \<^verbatim>\<open>statistics/handle.go\<close>\<close>

text \<open>
  The file \<^verbatim>\<open>handle.go\<close> holds the coordinator of the statistics cache: the
  \<^verbatim>\<open>Handle\<close> struct, its refresh cycle \<^verbatim>\<open>Update\<close>, the copy-on-write cache
  (\<^verbatim>\<open>copyFromOldCache\<close>, \<^verbatim>\<open>UpdateTableStats\<close>, \<^verbatim>\<open>GetTableStats\<close>), the lazy loader
  \<^verbatim>\<open>LoadNeededHistograms\<close>, \<^verbatim>\<open>FlushStats\<close> and the test-only \<^verbatim>\<open>Clear\<close>.

  The embedding is sequential: one goroutine runs one method at a time. Go's pointers
  are addresses into explicit stores, so that the identity of a table object and of a
  cache map is visible; everything the file calls but does not define is a field of the
  record \<open>env\<close>.
\<close>

subsection \<open>Machine integers, errors, outcomes\<close>

type_synonym int64 = "64 word"
type_synonym uint64 = "64 word"

text \<open>A Go \<^verbatim>\<open>error\<close> value. \<^verbatim>\<open>errors.Trace\<close> only annotates the error with a
  stack position, so a traced error is the error itself.\<close>

datatype error = Error string

text \<open>A call returns, or it panics (a nil dereference, an index out of range, a failed
  type assertion).\<close>

datatype 'a outcome = Return 'a | Panic

subsection \<open>Types declared in other files of the package\<close>

text \<open>Opaque values that the handle only passes along: a DDL event, a query feedback
  record, a load-meta notification, a count-min sketch, a field type, a histogram
  bucket.\<close>

datatype Event = Event nat
datatype QueryFeedback = QueryFeedback nat
datatype LoadMeta = LoadMeta nat
datatype CMSketch = Sketch nat
datatype FieldType = Tp nat
datatype Bucket = Bucket nat

text \<open>\<^verbatim>\<open>model.TableInfo\<close> and \<^verbatim>\<open>model.ColumnInfo\<close>, with the fields \<^verbatim>\<open>handle.go\<close>
  reads: \<^verbatim>\<open>tblInfo.ID\<close>, \<^verbatim>\<open>tableInfo.Name.O\<close> and \<^verbatim>\<open>c.Info.FieldType\<close>.\<close>

record TableInfo =
  ID :: int64
  Name :: string

record ColumnInfo =
  FieldType :: FieldType

text \<open>Modelled from the spec: the struct \<^verbatim>\<open>Histogram\<close> is declared in another file.
  The spec's column statistics carry a histogram (possibly with zero buckets, the
  unloaded placeholder), a distinct-value estimate, a null count, a total stored size and
  a last-update version; \<^verbatim>\<open>handle.go\<close> reads them as \<^verbatim>\<open>c.ID\<close>, \<^verbatim>\<open>c.NDV\<close>,
  \<^verbatim>\<open>c.LastUpdateVersion\<close>, \<^verbatim>\<open>c.NullCount\<close>, \<^verbatim>\<open>c.TotColSize\<close> and \<^verbatim>\<open>c.Len()\<close>.\<close>

record Histogram =
  ID_hg :: int64
  NDV :: int64
  NullCount :: int64
  LastUpdateVersion :: uint64
  TotColSize :: int64
  Buckets :: "Bucket list"

text \<open>Modelled from the spec: the struct \<^verbatim>\<open>Column\<close> is declared in another file;
  \<^verbatim>\<open>handle.go\<close> builds it from the four fields \<^verbatim>\<open>Histogram\<close>, \<^verbatim>\<open>Info\<close>,
  \<^verbatim>\<open>CMSketch\<close> (a pointer, possibly nil) and \<^verbatim>\<open>Count\<close>.\<close>

record Column =
  Histogram :: Histogram
  Info :: ColumnInfo
  CMSketch :: "CMSketch option"
  Count_col :: int64

text \<open>Modelled from the spec: \<^verbatim>\<open>Len\<close> of a column is declared in another file; an
  unloaded histogram is one with zero buckets.\<close>

definition Len :: "Column \<Rightarrow> nat" where
  "Len c = length (Buckets (Histogram c))"

text \<open>Modelled from the spec: the struct \<^verbatim>\<open>Table\<close> is declared in another file. Its
  identity is the table ID; it carries the version at which it was computed, the row
  count, the modify count and the statistics of its columns by column ID. A column is
  never written in place by \<^verbatim>\<open>handle.go\<close>, so the map holds the columns themselves.\<close>

record Table =
  TableID :: int64
  Version :: uint64
  Count :: int64
  ModifyCount :: int64
  Columns :: "int64 \<rightharpoonup> Column"

text \<open>\<^verbatim>\<open>AnalyzeResult\<close>, with the fields \<^verbatim>\<open>FlushStats\<close> reads.\<close>

record AnalyzeResult =
  TableID_ar :: int64
  Hist :: "Histogram list"
  Cms :: "CMSketch option list"
  Count_ar :: int64
  IsIndex :: int

text \<open>The accumulators: \<^verbatim>\<open>tableDeltaMap\<close>, \<^verbatim>\<open>errorRateDeltaMap\<close> and a session's
  collector (\<^verbatim>\<open>mapper\<close> and \<^verbatim>\<open>rateMap\<close> are the two fields the file sets).\<close>

type_synonym tableDeltaMap = "int64 \<rightharpoonup> int64 \<times> int64"
type_synonym errorRateDeltaMap = "int64 \<rightharpoonup> nat"

record SessionStatsCollector =
  mapper :: tableDeltaMap
  rateMap_collector :: errorRateDeltaMap

text \<open>A key of the package-level registry \<^verbatim>\<open>histogramNeededColumns\<close>.\<close>

record tableColumnID =
  tableID :: int64
  columnID :: int64

subsection \<open>The handle and the stores\<close>

text \<open>An address is an index into a store; an index outside the store is Go's nil.\<close>

type_synonym ref = nat

text \<open>\<^verbatim>\<open>type statsCache map[int64]*Table\<close>\<close>

type_synonym statsCache = "int64 \<rightharpoonup> ref"

text \<open>What \<^verbatim>\<open>log.Debug\<close> and \<^verbatim>\<open>log.Debugf\<close> print, one constructor for each call in
  the file.\<close>

datatype log_entry =
    UnknownTableID int64
  | ReadTableStatsError string error
  | HandleDDLEventFail error
  | DumpStatsDeltaFail error
  | SaveHistogramFail error
  | DumpStatsFeedbackFail error

text \<open>
  The fields of \<^verbatim>\<open>Handle\<close> in the order of the struct (\<open>MaxChunkSize\<close> is the one
  session variable of \<^verbatim>\<open>ctx\<close> that the file writes; \<open>statsCache\<close> is the
  \<^verbatim>\<open>atomic.Value\<close>, holding the address of the current map; a channel is the list of
  the values buffered in it, oldest first), then the two stores (the map objects and the
  \<^verbatim>\<open>Table\<close> objects ever allocated), the package-level registry
  \<^verbatim>\<open>histogramNeededColumns\<close> and the log. Go ranges over the registry's map in an
  unspecified order: the list is its keys in the order the next \<^verbatim>\<open>allCols\<close> returns.
\<close>

record state =
  MaxChunkSize :: int
  LastVersion :: uint64
  PrevLastVersion :: uint64
  statsCache :: ref
  ddlEventCh :: "Event list"
  analyzeResultCh :: "AnalyzeResult list"
  listHead :: SessionStatsCollector
  globalMap :: tableDeltaMap
  rateMap :: errorRateDeltaMap
  feedback :: "QueryFeedback list"
  Lease :: int
  loadMetaCh :: "LoadMeta list"
  cache_objs :: "statsCache list"
  table_objs :: "Table list"
  histogramNeededColumns :: "tableColumnID list"
  logs :: "log_entry list"

text \<open>A row of \<^verbatim>\<open>mysql.stats_meta\<close> with the four columns \<^verbatim>\<open>Update\<close> selects.\<close>

record meta_row =
  version :: uint64
  table_id :: int64
  modify_count :: int64
  count :: int64

text \<open>
  What \<^verbatim>\<open>handle.go\<close> calls and does not define. \<open>stats_meta\<close> is what the SQL
  executor finds when \<^verbatim>\<open>Update\<close> runs its statement: a failure, or the rows of the
  table \<^verbatim>\<open>mysql.stats_meta\<close>. The readers
  (\<^verbatim>\<open>tableStatsFromStorage\<close>, \<^verbatim>\<open>PseudoTable\<close>, \<^verbatim>\<open>histogramFromStorage\<close>,
  \<^verbatim>\<open>cmSketchFromStorage\<close>, \<^verbatim>\<open>totalRowCount\<close> followed by its conversion to
  \<^verbatim>\<open>int64\<close>) return the object they build, which the model of the caller then
  allocates in the store; \<^verbatim>\<open>SaveStatsToStorage\<close> writes to storage only; the three
  methods of the handle that \<^verbatim>\<open>FlushStats\<close> calls may change the handle.
\<close>

record env =
  stats_meta :: "error + meta_row list"
  tableStatsFromStorage :: "TableInfo \<Rightarrow> error + Table option"
  PseudoTable :: "TableInfo \<Rightarrow> Table"
  histogramFromStorage ::
    "int64 \<Rightarrow> int64 \<Rightarrow> FieldType \<Rightarrow> int64 \<Rightarrow> int \<Rightarrow> uint64 \<Rightarrow> int64 \<Rightarrow> int64 \<Rightarrow> error + Histogram"
  cmSketchFromStorage :: "int64 \<Rightarrow> int \<Rightarrow> int64 \<Rightarrow> error + CMSketch option"
  totalRowCount :: "Histogram \<Rightarrow> int64"
  HandleDDLEvent :: "Event \<Rightarrow> state \<Rightarrow> error option \<times> state"
  DumpStatsDeltaToKV :: "state \<Rightarrow> error option \<times> state"
  SaveStatsToStorage ::
    "int64 \<Rightarrow> int64 \<Rightarrow> int \<Rightarrow> Histogram \<Rightarrow> CMSketch option \<Rightarrow> int \<Rightarrow> error option"
  DumpStatsFeedbackToKV :: "state \<Rightarrow> error option \<times> state"

subsection \<open>The stores\<close>

text \<open>Dereferencing a \<^verbatim>\<open>*Table\<close>, and allocating a \<^verbatim>\<open>Table\<close> object.\<close>

definition Table_at :: "state \<Rightarrow> ref \<Rightarrow> Table option" where
  "Table_at s p = (if p < length (table_objs s) then Some (table_objs s ! p) else None)"

definition new_Table :: "Table \<Rightarrow> state \<Rightarrow> ref \<times> state" where
  "new_Table t s = (length (table_objs s), s\<lparr>table_objs := table_objs s @ [t]\<rparr>)"

text \<open>\<^verbatim>\<open>h.statsCache.Load().(statsCache)\<close>: the type assertion panics when nothing
  has been stored. \<^verbatim>\<open>h.statsCache.Store(c)\<close> makes the map object \<open>c\<close>, which the
  caller has built and shares with nobody, the current one.\<close>

definition Load :: "state \<Rightarrow> statsCache outcome" where
  "Load s =
     (if statsCache s < length (cache_objs s) then Return (cache_objs s ! statsCache s)
      else Panic)"

definition Store :: "statsCache \<Rightarrow> state \<Rightarrow> state" where
  "Store c s = s\<lparr>statsCache := length (cache_objs s), cache_objs := cache_objs s @ [c]\<rparr>"

subsection \<open>\<^verbatim>\<open>copyFromOldCache\<close> and \<^verbatim>\<open>UpdateTableStats\<close>\<close>

text \<open>
  \<^verbatim>\<open>
  newCache := statsCache{}
  oldCache := h.statsCache.Load().(statsCache)
  for k, v := range oldCache { newCache[k] = v }
  return newCache
  \<close>
\<close>

definition copyFromOldCache :: "state \<Rightarrow> statsCache outcome" where
  "copyFromOldCache s =
     (case Load s of
        Panic \<Rightarrow> Panic
      | Return oldCache \<Rightarrow> Return (Map.empty ++ oldCache))"

text \<open>\<^verbatim>\<open>for _, tbl := range tables { id := tbl.TableID; newCache[id] = tbl }\<close>; reading
  \<^verbatim>\<open>tbl.TableID\<close> through a nil pointer panics.\<close>

fun put_tables :: "state \<Rightarrow> ref list \<Rightarrow> statsCache \<Rightarrow> statsCache outcome" where
  "put_tables s [] newCache = Return newCache"
| "put_tables s (tbl # tables) newCache =
     (case Table_at s tbl of
        None \<Rightarrow> Panic
      | Some t \<Rightarrow> put_tables s tables (newCache(TableID t \<mapsto> tbl)))"

text \<open>\<^verbatim>\<open>for _, id := range deletedIDs { delete(newCache, id) }\<close>\<close>

fun delete_ids :: "int64 list \<Rightarrow> statsCache \<Rightarrow> statsCache" where
  "delete_ids [] newCache = newCache"
| "delete_ids (i # deletedIDs) newCache = delete_ids deletedIDs (newCache(i := None))"

definition UpdateTableStats :: "ref list \<Rightarrow> int64 list \<Rightarrow> state \<Rightarrow> state outcome" where
  "UpdateTableStats tables deletedIDs s =
     (case copyFromOldCache s of
        Panic \<Rightarrow> Panic
      | Return newCache \<Rightarrow>
         (case put_tables s tables newCache of
            Panic \<Rightarrow> Panic
          | Return newCache1 \<Rightarrow> Return (Store (delete_ids deletedIDs newCache1) s)))"

subsection \<open>\<^verbatim>\<open>Update\<close>\<close>

text \<open>
  The statement \<^verbatim>\<open>Update\<close> sends is
  \<^verbatim>\<open>SELECT version, table_id, modify_count, count from mysql.stats_meta
  where version > %d order by version\<close>, with the handle's \<^verbatim>\<open>PrevLastVersion\<close> for
  \<^verbatim>\<open>%d\<close>. \<open>ExecRestrictedSQL\<close> is the executor on that statement with the number
  \<open>floor\<close> in it: the rows above the floor, by ascending version (the version column is
  unsigned).
\<close>

definition ExecRestrictedSQL :: "env \<Rightarrow> uint64 \<Rightarrow> error + meta_row list" where
  "ExecRestrictedSQL E floor =
     (case stats_meta E of
        Inl err \<Rightarrow> Inl err
      | Inr stored \<Rightarrow> Inr (sort_key version (filter (\<lambda>row. floor < version row) stored)))"

text \<open>
  The loop over the rows. \<open>is\<close> is the catalog: \<^verbatim>\<open>is.TableByID(tableID)\<close> followed by
  \<^verbatim>\<open>table.Meta()\<close>. \<open>tables\<close> and \<open>deletedTableIDs\<close> are the two slices the loop
  appends to. The three assignments to \<^verbatim>\<open>tbl.Version\<close>, \<^verbatim>\<open>tbl.Count\<close> and
  \<^verbatim>\<open>tbl.ModifyCount\<close> are made on the object before it is put in the store.
\<close>

fun Update_rows ::
  "env \<Rightarrow> (int64 \<Rightarrow> TableInfo option) \<Rightarrow> meta_row list \<Rightarrow> ref list \<Rightarrow> int64 list \<Rightarrow> state
     \<Rightarrow> ref list \<times> int64 list \<times> state" where
  "Update_rows E is [] tables deletedTableIDs s = (tables, deletedTableIDs, s)"
| "Update_rows E is (row # rows) tables deletedTableIDs s =
     (let s1 = s\<lparr>LastVersion := version row\<rparr> in
      case is (table_id row) of
        None \<Rightarrow>
          Update_rows E is rows tables (deletedTableIDs @ [table_id row])
            (s1\<lparr>logs := logs s1 @ [UnknownTableID (table_id row)]\<rparr>)
      | Some tableInfo \<Rightarrow>
         (case tableStatsFromStorage E tableInfo of
            Inl err \<Rightarrow>
              Update_rows E is rows tables deletedTableIDs
                (s1\<lparr>logs := logs s1 @ [ReadTableStatsError (Name tableInfo) err]\<rparr>)
          | Inr None \<Rightarrow> Update_rows E is rows tables (deletedTableIDs @ [table_id row]) s1
          | Inr (Some tbl) \<Rightarrow>
             (case new_Table
                     (tbl\<lparr>Version := version row, Count := count row,
                          ModifyCount := modify_count row\<rparr>) s1 of
                (p, s2) \<Rightarrow> Update_rows E is rows (tables @ [p]) deletedTableIDs s2)))"

definition Update ::
  "env \<Rightarrow> (int64 \<Rightarrow> TableInfo option) \<Rightarrow> state \<Rightarrow> (error option \<times> state) outcome" where
  "Update E is s =
     (case ExecRestrictedSQL E (PrevLastVersion s) of
        Inl err \<Rightarrow> Return (Some err, s)
      | Inr rows \<Rightarrow>
         (case Update_rows E is rows [] [] (s\<lparr>PrevLastVersion := LastVersion s\<rparr>) of
            (tables, deletedTableIDs, s1) \<Rightarrow>
              (case UpdateTableStats tables deletedTableIDs s1 of
                 Panic \<Rightarrow> Panic
               | Return s2 \<Rightarrow> Return (None, s2))))"

subsection \<open>\<^verbatim>\<open>NewHandle\<close> and \<^verbatim>\<open>Clear\<close>\<close>

text \<open>\<^verbatim>\<open>NewHandle(ctx, lease)\<close>: the channels and maps are made empty, the two versions
  are Go's zero value, and an empty cache map is stored. \<open>ctx\<close> is the session's
  \<^verbatim>\<open>MaxChunkSize\<close>; the stores, the registry and the log are those of a process that
  has done nothing yet.\<close>

definition NewHandle :: "int \<Rightarrow> int \<Rightarrow> state" where
  "NewHandle ctx lease =
     Store Map.empty
       \<lparr>MaxChunkSize = ctx, LastVersion = 0, PrevLastVersion = 0, statsCache = 0,
        ddlEventCh = [], analyzeResultCh = [],
        listHead = \<lparr>mapper = Map.empty, rateMap_collector = Map.empty\<rparr>,
        globalMap = Map.empty, rateMap = Map.empty, feedback = [], Lease = lease,
        loadMetaCh = [], cache_objs = [], table_objs = [],
        histogramNeededColumns = [], logs = []\<rparr>"

text \<open>\<^verbatim>\<open>for len(ch) > 0 { <-ch }\<close>: receive and drop until the channel is empty.\<close>

fun discard_all :: "'a list \<Rightarrow> 'a list" where
  "discard_all [] = []"
| "discard_all (x # ch) = discard_all ch"

definition Clear :: "state \<Rightarrow> state" where
  "Clear s =
     (let s1 = Store Map.empty s;
          s2 = s1\<lparr>LastVersion := 0\<rparr>;
          s3 = s2\<lparr>PrevLastVersion := 0\<rparr>;
          s4 = s3\<lparr>ddlEventCh := discard_all (ddlEventCh s3)\<rparr>;
          s5 = s4\<lparr>analyzeResultCh := discard_all (analyzeResultCh s4)\<rparr>;
          s6 = s5\<lparr>MaxChunkSize := 1\<rparr>;
          s7 = s6\<lparr>listHead := \<lparr>mapper = Map.empty, rateMap_collector = Map.empty\<rparr>\<rparr>;
          s8 = s7\<lparr>globalMap := Map.empty\<rparr>
      in s8\<lparr>rateMap := Map.empty\<rparr>)"

subsection \<open>\<^verbatim>\<open>GetTableStats\<close>\<close>

text \<open>
  \<^verbatim>\<open>
  tbl, ok := h.statsCache.Load().(statsCache)[tblInfo.ID]
  if !ok {
      tbl = PseudoTable(tblInfo)
      h.UpdateTableStats([]*Table{tbl}, nil)
      return tbl
  }
  return tbl
  \<close>
  The result is the pointer returned and the state after the call.
\<close>

definition GetTableStats :: "env \<Rightarrow> TableInfo \<Rightarrow> state \<Rightarrow> (ref \<times> state) outcome" where
  "GetTableStats E tblInfo s =
     (case Load s of
        Panic \<Rightarrow> Panic
      | Return cache \<Rightarrow>
         (case cache (ID tblInfo) of
            None \<Rightarrow>
              (case new_Table (PseudoTable E tblInfo) s of
                 (tbl, s1) \<Rightarrow>
                   (case UpdateTableStats [tbl] [] s1 of
                      Panic \<Rightarrow> Panic
                    | Return s2 \<Rightarrow> Return (tbl, s2)))
          | Some tbl \<Rightarrow> Return (tbl, s)))"

subsection \<open>\<^verbatim>\<open>LoadNeededHistograms\<close>\<close>

text \<open>\<^verbatim>\<open>histogramNeededColumns.allCols()\<close> and \<^verbatim>\<open>histogramNeededColumns.delete(col)\<close>
  on the registry, and the assignment to the object behind a \<^verbatim>\<open>*Table\<close>.\<close>

definition allCols :: "state \<Rightarrow> tableColumnID list" where
  "allCols s = histogramNeededColumns s"

definition delete_col :: "tableColumnID \<Rightarrow> state \<Rightarrow> state" where
  "delete_col col s = s\<lparr>histogramNeededColumns := removeAll col (histogramNeededColumns s)\<rparr>"

definition set_Table :: "ref \<Rightarrow> Table \<Rightarrow> state \<Rightarrow> state" where
  "set_Table p t s = s\<lparr>table_objs := (table_objs s)[p := t]\<rparr>"

text \<open>
  The body of the loop, for the pending column \<open>col\<close>: \<open>Continue\<close> is the end of
  the iteration (by \<^verbatim>\<open>continue\<close> or at the end of the body), \<open>Stop\<close> is the
  \<^verbatim>\<open>return\<close> of an error, or a panic. Modelled from the spec: \<^verbatim>\<open>tbl.copy()\<close> is
  declared in another file; it clones the table entry, so it is the allocation of an
  object with the fields of the cached one.
\<close>

datatype loop_step = Continue state | Stop "(error option \<times> state) outcome"

definition LoadNeededHistograms_col :: "env \<Rightarrow> tableColumnID \<Rightarrow> state \<Rightarrow> loop_step" where
  "LoadNeededHistograms_col E col s =
     (case Load s of
        Panic \<Rightarrow> Stop Panic
      | Return cache \<Rightarrow>
         (case cache (tableID col) of
            None \<Rightarrow> Continue s
          | Some cached \<Rightarrow>
             (case Table_at s cached of
                None \<Rightarrow> Stop Panic
              | Some t \<Rightarrow>
                 (case new_Table t s of
                    (tbl, s1) \<Rightarrow>
                      (case Columns t (columnID col) of
                         None \<Rightarrow> Continue (delete_col col s1)
                       | Some c \<Rightarrow>
                          if Len c > 0 then Continue (delete_col col s1)
                          else
                            (case histogramFromStorage E (tableID col) (ID_hg (Histogram c))
                                    (FieldType (Info c)) (NDV (Histogram c)) 0
                                    (LastUpdateVersion (Histogram c)) (NullCount (Histogram c))
                                    (TotColSize (Histogram c)) of
                               Inl err \<Rightarrow> Stop (Return (Some err, s1))
                             | Inr hg \<Rightarrow>
                                (case cmSketchFromStorage E (tableID col) 0 (columnID col) of
                                   Inl err \<Rightarrow> Stop (Return (Some err, s1))
                                 | Inr cms \<Rightarrow>
                                    (case UpdateTableStats [tbl] []
                                            (set_Table tbl
                                               (t\<lparr>Columns := (Columns t)
                                                     (ID_hg (Histogram c) \<mapsto>
                                                        \<lparr>Histogram = hg, Info = Info c,
                                                         CMSketch = cms,
                                                         Count_col = totalRowCount E hg\<rparr>)\<rparr>)
                                               s1) of
                                       Panic \<Rightarrow> Stop Panic
                                     | Return s2 \<Rightarrow> Continue (delete_col col s2)))))))))"

text \<open>\<^verbatim>\<open>for _, col := range cols { ... }; return nil\<close>. The result is the error returned
  (if any) and the state after the call.\<close>

fun LoadNeededHistograms_cols ::
  "env \<Rightarrow> tableColumnID list \<Rightarrow> state \<Rightarrow> (error option \<times> state) outcome" where
  "LoadNeededHistograms_cols E [] s = Return (None, s)"
| "LoadNeededHistograms_cols E (col # cols) s =
     (case LoadNeededHistograms_col E col s of
        Stop r \<Rightarrow> r
      | Continue s1 \<Rightarrow> LoadNeededHistograms_cols E cols s1)"

definition LoadNeededHistograms :: "env \<Rightarrow> state \<Rightarrow> (error option \<times> state) outcome" where
  "LoadNeededHistograms E s = LoadNeededHistograms_cols E (allCols s) s"

subsection \<open>\<^verbatim>\<open>FlushStats\<close>\<close>






subsection \<open>The snapshot after a replacement\<close>

text \<open>Modelled from the spec: the snapshot that \<open>Replace\<close> installs is the current
  one with the inserts and overwrites applied (the last update of a table wins), then
  the deletions. \<open>old\<close> is the current snapshot, \<open>s\<close> the state in which the
  pointers of \<open>updates\<close> are read.\<close>

definition Replace :: "state \<Rightarrow> statsCache \<Rightarrow> ref list \<Rightarrow> int64 list \<Rightarrow> statsCache" where
  "Replace s old updates removals =
     (old ++ map_of (rev (map (\<lambda>p. (TableID (table_objs s ! p), p)) updates)))
       |` (- set removals)"

subsection \<open>What a cycle does with one row, and sequences of cycles\<close>

text \<open>The object the loop of \<^verbatim>\<open>Update\<close> appends to \<^verbatim>\<open>tables\<close> for a row (none when
  the catalog does not know the table, the reconstruction fails or it returns nil), and
  whether the loop appends the row's table ID to \<^verbatim>\<open>deletedTableIDs\<close>.\<close>

definition row_object :: "env \<Rightarrow> (int64 \<Rightarrow> TableInfo option) \<Rightarrow> meta_row \<Rightarrow> Table option" where
  "row_object E is row =
     (case is (table_id row) of
        None \<Rightarrow> None
      | Some tableInfo \<Rightarrow>
         (case tableStatsFromStorage E tableInfo of
            Inr (Some tbl) \<Rightarrow>
              Some (tbl\<lparr>Version := version row, Count := count row,
                        ModifyCount := modify_count row\<rparr>)
          | _ \<Rightarrow> None))"

definition row_removed :: "env \<Rightarrow> (int64 \<Rightarrow> TableInfo option) \<Rightarrow> meta_row \<Rightarrow> bool" where
  "row_removed E is row =
     (case is (table_id row) of
        None \<Rightarrow> True
      | Some tableInfo \<Rightarrow> tableStatsFromStorage E tableInfo = Inr None)"

text \<open>A cycle does not move the last version backwards: its query fails, or returns no
  row, or the last row it returns has a version that is at least the handle's
  \<^verbatim>\<open>LastVersion\<close>.\<close>

definition advancing :: "env \<Rightarrow> state \<Rightarrow> bool" where
  "advancing E s =
     (case ExecRestrictedSQL E (PrevLastVersion s) of
        Inl err \<Rightarrow> True
      | Inr rows \<Rightarrow> rows = [] \<or> LastVersion s \<le> version (last rows))"

text \<open>\<open>cycles s s'\<close>: the handle gets from \<open>s\<close> to \<open>s'\<close> by calls of
  \<^verbatim>\<open>Update\<close>, none of which moves the last version backwards.\<close>

inductive cycles :: "state \<Rightarrow> state \<Rightarrow> bool" where
  cycles_none: "cycles s s"
| cycles_Update:
    "cycles s s1 \<Longrightarrow> advancing E s1 \<Longrightarrow> Update E is s1 = Return (r, s2) \<Longrightarrow> cycles s s2"

subsection \<open>The channels during \<^verbatim>\<open>FlushStats\<close>\<close>



subsection \<open>A pending column when its turn comes\<close>

text \<open>What the loop of \<^verbatim>\<open>LoadNeededHistograms\<close> finds for a pending column in the current
  cache: nothing when the table is not cached, else the table's entry for the column
  (possibly none). And the two reads from storage for a column, in the order of the
  code: the error of the first that fails, or the histogram and the sketch.\<close>

definition cached_column :: "state \<Rightarrow> tableColumnID \<Rightarrow> Column option option" where
  "cached_column s col =
     (case Load s of
        Panic \<Rightarrow> None
      | Return cache \<Rightarrow>
         (case cache (tableID col) of
            None \<Rightarrow> None
          | Some p \<Rightarrow>
             (case Table_at s p of
                None \<Rightarrow> None
              | Some t \<Rightarrow> Some (Columns t (columnID col)))))"

definition load_result :: "env \<Rightarrow> tableColumnID \<Rightarrow> Column \<Rightarrow> error + Histogram \<times> CMSketch option" where
  "load_result E col c =
     (case histogramFromStorage E (tableID col) (ID_hg (Histogram c)) (FieldType (Info c))
             (NDV (Histogram c)) 0 (LastUpdateVersion (Histogram c)) (NullCount (Histogram c))
             (TotColSize (Histogram c)) of
        Inl err \<Rightarrow> Inl err
      | Inr hg \<Rightarrow>
         (case cmSketchFromStorage E (tableID col) 0 (columnID col) of
            Inl err \<Rightarrow> Inl err
          | Inr cms \<Rightarrow> Inr (hg, cms)))"

text \<open>The three cases in which the loop deletes the registry entry of a pending column:
  the cached table has no such column, the column's histogram is already loaded, or
  both reads succeed.\<close>

definition may_clear :: "env \<Rightarrow> state \<Rightarrow> tableColumnID \<Rightarrow> bool" where
  "may_clear E s col =
     (case cached_column s col of
        None \<Rightarrow> False
      | Some None \<Rightarrow> True
      | Some (Some c) \<Rightarrow> Len c > 0 \<or> (case load_result E col c of Inl err \<Rightarrow> False | Inr loaded \<Rightarrow> True))"

subsection \<open>Concrete handles, storage and catalogs\<close>

text \<open>An environment in which storage is empty and every other call fails and changes
  nothing, and a table object without columns.\<close>

definition env0 :: env where
  "env0 =
     \<lparr>stats_meta = Inr [],
      tableStatsFromStorage = (\<lambda>_. Inl (Error ''read'')),
      PseudoTable = (\<lambda>info. \<lparr>TableID = ID info, Version = 0, Count = 10000, ModifyCount = 0,
                              Columns = Map.empty\<rparr>),
      histogramFromStorage = (\<lambda>_ _ _ _ _ _ _ _. Inl (Error ''histogram'')),
      cmSketchFromStorage = (\<lambda>_ _ _. Inl (Error ''sketch'')),
      totalRowCount = (\<lambda>_. 0),
      HandleDDLEvent = (\<lambda>_ s. (Some (Error ''ddl''), s)),
      DumpStatsDeltaToKV = (\<lambda>s. (Some (Error ''delta''), s)),
      SaveStatsToStorage = (\<lambda>_ _ _ _ _ _. Some (Error ''save'')),
      DumpStatsFeedbackToKV = (\<lambda>s. (Some (Error ''feedback''), s))\<rparr>"

definition table0 :: "int64 \<Rightarrow> Table" where
  "table0 i = \<lparr>TableID = i, Version = 0, Count = 0, ModifyCount = 0, Columns = Map.empty\<rparr>"

text \<open>A handle with four table objects, two of them in the cache; and one with
  something in every field that \<^verbatim>\<open>Clear\<close> could reset.\<close>

definition state5 :: state where
  "state5 = (NewHandle 1024 3)\<lparr>table_objs := [table0 1, table0 2, table0 1, table0 4],
                              cache_objs := [[1 \<mapsto> 0, 4 \<mapsto> 3]]\<rparr>"

definition state9 :: state where
  "state9 = state5\<lparr>LastVersion := 12, PrevLastVersion := 5, ddlEventCh := [Event 1, Event 2],
              analyzeResultCh := [\<lparr>TableID_ar = 1, Hist = [], Cms = [], Count_ar = 0, IsIndex = 0\<rparr>],
              feedback := [QueryFeedback 1], loadMetaCh := [LoadMeta 1],
              globalMap := [1 \<mapsto> (2, 3)]\<rparr>"

text \<open>Storage with the one row of the specification's example, a reconstruction that
  succeeds for every table, and a catalog that knows table 1 only.\<close>

definition env1 :: env where
  "env1 = env0\<lparr>stats_meta := Inr [\<lparr>version = 5, table_id = 1, modify_count = 3, count = 100\<rparr>],
               tableStatsFromStorage := (\<lambda>info. Inr (Some (table0 (ID info))))\<rparr>"

definition catalog1 :: "int64 \<Rightarrow> TableInfo option" where
  "catalog1 i = (if i = 1 then Some \<lparr>ID = 1, Name = ''t1''\<rparr> else None)"

text \<open>Three rows of \<^verbatim>\<open>stats_meta\<close>, storage that holds given rows and reconstructs every
  table, and a catalog that knows every table.\<close>

definition rowA :: meta_row where
  "rowA = \<lparr>version = 10, table_id = 1, modify_count = 2, count = 50\<rparr>"

definition rowB :: meta_row where
  "rowB = \<lparr>version = 12, table_id = 2, modify_count = 0, count = 70\<rparr>"

definition rowC :: meta_row where
  "rowC = \<lparr>version = 3, table_id = 3, modify_count = 1, count = 9\<rparr>"

definition env_rows :: "meta_row list \<Rightarrow> env" where
  "env_rows stored = env0\<lparr>stats_meta := Inr stored,
                          tableStatsFromStorage := (\<lambda>info. Inr (Some (table0 (ID info))))\<rparr>"

definition catalog_all :: "int64 \<Rightarrow> TableInfo option" where
  "catalog_all i = Some \<lparr>ID = i, Name = ''t''\<rparr>"



text \<open>A cached table with a loaded column 7 and an unloaded column 8, and a handle with
  given pending columns (all of table 1).\<close>

definition column7 :: Column where
  "column7 = \<lparr>Histogram = \<lparr>ID_hg = 7, NDV = 1, NullCount = 0, LastUpdateVersion = 5,
                             TotColSize = 8, Buckets = [Bucket 0]\<rparr>,
              Info = \<lparr>FieldType = Tp 1\<rparr>, CMSketch = None, Count_col = 1\<rparr>"

definition column8 :: Column where
  "column8 = \<lparr>Histogram = \<lparr>ID_hg = 8, NDV = 1, NullCount = 0, LastUpdateVersion = 5,
                             TotColSize = 8, Buckets = []\<rparr>,
              Info = \<lparr>FieldType = Tp 1\<rparr>, CMSketch = None, Count_col = 0\<rparr>"

definition table8 :: Table where
  "table8 = \<lparr>TableID = 1, Version = 5, Count = 1, ModifyCount = 0,
             Columns = [7 \<mapsto> column7, 8 \<mapsto> column8]\<rparr>"

definition pending :: "int64 \<Rightarrow> tableColumnID" where
  "pending c = \<lparr>tableID = 1, columnID = c\<rparr>"

definition state8 :: "tableColumnID list \<Rightarrow> state" where
  "state8 cols = (NewHandle 1024 3)\<lparr>table_objs := [table8], cache_objs := [[1 \<mapsto> 0]],
                                   histogramNeededColumns := cols\<rparr>"

section \<open>Properties\<close>

subsection \<open>A failed query leaves the handle as it was\<close>

text \<open>
  C10. If the storage query at the start of \<^verbatim>\<open>Update\<close> fails, \<^verbatim>\<open>Update\<close> returns the
  error and the state of the handle is exactly the one before the call: both watermarks,
  the current cache map and everything else.
\<close>

theorem Update_query_error_keeps_state:
  assumes "stats_meta E = Inl err"
  shows "Update E is s = Return (Some err, s)"
  using assms by (simp add: Update_def ExecRestrictedSQL_def)

theorem Update_query_error_keeps_state_witness:
  "stats_meta (env0\<lparr>stats_meta := Inl (Error ''timeout'')\<rparr>) = Inl (Error ''timeout'')
   \<and> Update (env0\<lparr>stats_meta := Inl (Error ''timeout'')\<rparr>) (\<lambda>_. None)
        ((NewHandle 1024 3)\<lparr>LastVersion := 12, PrevLastVersion := 5\<rparr>)
      = Return (Some (Error ''timeout''), (NewHandle 1024 3)\<lparr>LastVersion := 12, PrevLastVersion := 5\<rparr>)"
  using Update_query_error_keeps_state
          [of "env0\<lparr>stats_meta := Inl (Error ''timeout'')\<rparr>" "Error ''timeout''" "\<lambda>_. None"
              "(NewHandle 1024 3)\<lparr>LastVersion := 12, PrevLastVersion := 5\<rparr>"]
  by (simp add: env0_def)

subsection \<open>The copy-on-write cache\<close>

lemma Load_Return_iff:
  "Load s = Return c \<longleftrightarrow>
     statsCache s < length (cache_objs s) \<and> cache_objs s ! statsCache s = c"
  by (simp add: Load_def)

lemma Load_Store: "Load (Store c s) = Return c"
  by (simp add: Load_def Store_def)

lemma put_tables_map_of:
  "\<forall>p \<in> set tables. p < length (table_objs s) \<Longrightarrow>
   put_tables s tables c =
     Return (c ++ map_of (rev (map (\<lambda>p. (TableID (table_objs s ! p), p)) tables)))"
proof (induction tables arbitrary: c)
  case Nil
  then show ?case by simp
next
  case (Cons p ps)
  have "c(TableID (table_objs s ! p) \<mapsto> p) ++ m = c ++ ([TableID (table_objs s ! p) \<mapsto> p] ++ m)"
    for m
    by (simp add: map_add_def fun_eq_iff split: option.splits)
  with Cons show ?case
    by (simp add: Table_at_def)
qed

lemma delete_ids_restrict: "delete_ids ds c = c |` (- set ds)"
proof (induction ds arbitrary: c)
  case Nil
  then show ?case by simp
next
  case (Cons d ds)
  then show ?case
    by (auto simp: restrict_map_def fun_eq_iff)
qed

lemma UpdateTableStats_Store:
  assumes "Load s = Return old" and "\<forall>p \<in> set tables. p < length (table_objs s)"
  shows "UpdateTableStats tables deletedIDs s = Return (Store (Replace s old tables deletedIDs) s)"
  using assms
  by (simp add: UpdateTableStats_def copyFromOldCache_def put_tables_map_of delete_ids_restrict
      Replace_def)

text \<open>
  C5. For every current snapshot \<open>old\<close>, every list of (non-nil) table pointers and
  every list of removals, \<^verbatim>\<open>UpdateTableStats\<close> returns in the state that differs from
  the one before in two places only: the store of map objects has one more object, the
  snapshot \<open>Replace\<close> describes (the clone with the updates applied, then the removals),
  and the handle's \<^verbatim>\<open>statsCache\<close> points at it, by its one \<^verbatim>\<open>Store\<close>. Every map
  object that existed before, the prior snapshot among them, is what it was; a table ID
  that is among the removals is absent from the new snapshot, also when it is among the
  updates.
\<close>

theorem UpdateTableStats_copy_on_write:
  assumes "Load s = Return old" and "\<forall>p \<in> set tables. p < length (table_objs s)"
  shows "\<exists>s'. UpdateTableStats tables deletedIDs s = Return s'
           \<and> s' = s\<lparr>statsCache := length (cache_objs s),
                    cache_objs := cache_objs s @ [Replace s old tables deletedIDs]\<rparr>
           \<and> Load s' = Return (Replace s old tables deletedIDs)
           \<and> (\<forall>a < length (cache_objs s). cache_objs s' ! a = cache_objs s ! a)
           \<and> cache_objs s' ! statsCache s = old
           \<and> (\<forall>i \<in> set deletedIDs. Replace s old tables deletedIDs i = None)"
proof -
  let ?new = "Replace s old tables deletedIDs"
  have old: "statsCache s < length (cache_objs s)" "cache_objs s ! statsCache s = old"
    using assms(1) by (simp_all add: Load_Return_iff)
  have "UpdateTableStats tables deletedIDs s = Return (Store ?new s)"
    using assms by (rule UpdateTableStats_Store)
  moreover have "Store ?new s = s\<lparr>statsCache := length (cache_objs s),
                    cache_objs := cache_objs s @ [?new]\<rparr>"
    by (simp add: Store_def)
  moreover have "Load (Store ?new s) = Return ?new"
    by (rule Load_Store)
  moreover have "\<forall>a < length (cache_objs s). cache_objs (Store ?new s) ! a = cache_objs s ! a"
    by (simp add: Store_def nth_append)
  moreover have "cache_objs (Store ?new s) ! statsCache s = old"
    using old by (simp add: Store_def nth_append)
  moreover have "\<forall>i \<in> set deletedIDs. ?new i = None"
    by (simp add: Replace_def)
  ultimately show ?thesis by metis
qed

theorem UpdateTableStats_copy_on_write_witness:
  "Load state5 = Return [1 \<mapsto> 0, 4 \<mapsto> 3]
   \<and> (\<exists>s'. UpdateTableStats [1, 2] [2, 4] state5 = Return s'
          \<and> statsCache s' = 1
          \<and> cache_objs s' ! 0 = [1 \<mapsto> 0, 4 \<mapsto> 3]
          \<and> map (cache_objs s' ! 1) [1, 2, 3, 4] = [Some 2, None, None, None])"
proof -
  have l: "Load state5 = Return [1 \<mapsto> 0, 4 \<mapsto> 3]"
    by (simp add: state5_def NewHandle_def Store_def Load_def)
  have v: "\<forall>p \<in> set [1, 2]. p < length (table_objs state5)"
    by (simp add: state5_def)
  show ?thesis
    using UpdateTableStats_copy_on_write [OF l v, of "[2, 4]"] l
    by (auto simp: Replace_def state5_def NewHandle_def Store_def table0_def restrict_map_def
        map_add_def)
qed

text \<open>
  C6. Let the object \<^verbatim>\<open>PseudoTable\<close> builds for a table carry that table's ID. When
  the table is not in the cache, \<^verbatim>\<open>GetTableStats\<close> returns a pointer to a new object,
  the pseudo statistics, and the cache afterwards is the one before with this one entry
  added under the table's ID; a second call right after returns the same pointer and
  leaves the state, the cache with it, as the first call left it. When the table is in
  the cache, the call returns the cached pointer and the state is unchanged.
\<close>

theorem GetTableStats_miss_then_hit:
  assumes "Load s = Return cache" and "TableID (PseudoTable E tblInfo) = ID tblInfo"
  shows "(cache (ID tblInfo) = None \<longrightarrow>
            (\<exists>s1. GetTableStats E tblInfo s = Return (length (table_objs s), s1)
               \<and> Table_at s1 (length (table_objs s)) = Some (PseudoTable E tblInfo)
               \<and> Load s1 = Return (cache(ID tblInfo \<mapsto> length (table_objs s)))
               \<and> GetTableStats E tblInfo s1 = Return (length (table_objs s), s1)))
       \<and> (\<forall>tbl. cache (ID tblInfo) = Some tbl \<longrightarrow> GetTableStats E tblInfo s = Return (tbl, s))"
proof (intro conjI impI allI)
  fix tbl assume "cache (ID tblInfo) = Some tbl"
  with assms(1) show "GetTableStats E tblInfo s = Return (tbl, s)"
    by (simp add: GetTableStats_def)
next
  assume miss: "cache (ID tblInfo) = None"
  let ?p = "length (table_objs s)"
  let ?s0 = "s\<lparr>table_objs := table_objs s @ [PseudoTable E tblInfo]\<rparr>"
  let ?new = "Replace ?s0 cache [?p] []"
  have l0: "Load ?s0 = Return cache"
    using assms(1) by (simp add: Load_Return_iff)
  have v: "\<forall>p \<in> set [?p]. p < length (table_objs ?s0)"
    by simp
  have u: "UpdateTableStats [?p] [] ?s0 = Return (Store ?new ?s0)"
    using UpdateTableStats_Store [OF l0 v] .
  have new: "?new = cache(ID tblInfo \<mapsto> ?p)"
    using assms(2) by (auto simp: Replace_def fun_eq_iff map_add_def restrict_map_def)
  have g: "GetTableStats E tblInfo s = Return (?p, Store ?new ?s0)"
    using assms(1) miss u by (simp add: GetTableStats_def new_Table_def)
  have l1: "Load (Store ?new ?s0) = Return (cache(ID tblInfo \<mapsto> ?p))"
    using new by (simp add: Load_Store)
  have t: "Table_at (Store ?new ?s0) ?p = Some (PseudoTable E tblInfo)"
    by (simp add: Table_at_def Store_def)
  have g2: "GetTableStats E tblInfo (Store ?new ?s0) = Return (?p, Store ?new ?s0)"
    using l1 by (simp add: GetTableStats_def)
  show "\<exists>s1. GetTableStats E tblInfo s = Return (?p, s1)
               \<and> Table_at s1 ?p = Some (PseudoTable E tblInfo)
               \<and> Load s1 = Return (cache(ID tblInfo \<mapsto> ?p))
               \<and> GetTableStats E tblInfo s1 = Return (?p, s1)"
    using g t l1 g2 by blast
qed

theorem GetTableStats_miss_then_hit_witness:
  "(\<exists>s1. GetTableStats env0 \<lparr>ID = 7, Name = ''t7''\<rparr> state5 = Return (4, s1)
        \<and> Table_at s1 4 = Some (PseudoTable env0 \<lparr>ID = 7, Name = ''t7''\<rparr>)
        \<and> Load s1 = Return [1 \<mapsto> 0, 4 \<mapsto> 3, 7 \<mapsto> 4]
        \<and> GetTableStats env0 \<lparr>ID = 7, Name = ''t7''\<rparr> s1 = Return (4, s1))
   \<and> GetTableStats env0 \<lparr>ID = 4, Name = ''t4''\<rparr> state5 = Return (3, state5)"
proof -
  have l: "Load state5 = Return [1 \<mapsto> 0, 4 \<mapsto> 3]"
    by (simp add: state5_def NewHandle_def Store_def Load_def)
  have n: "length (table_objs state5) = 4"
    by (simp add: state5_def)
  have p7: "TableID (PseudoTable env0 \<lparr>ID = 7, Name = ''t7''\<rparr>) = ID \<lparr>ID = 7, Name = ''t7''\<rparr>"
    by (simp add: env0_def)
  have p4: "TableID (PseudoTable env0 \<lparr>ID = 4, Name = ''t4''\<rparr>) = ID \<lparr>ID = 4, Name = ''t4''\<rparr>"
    by (simp add: env0_def)
  show ?thesis
    using GetTableStats_miss_then_hit [OF l p7] GetTableStats_miss_then_hit [OF l p4] n
    by simp
qed

subsection \<open>\<^verbatim>\<open>Clear\<close>\<close>

lemma discard_all_Nil: "discard_all ch = []"
  by (induction ch) simp_all

text \<open>
  C9, as the code has it. After \<^verbatim>\<open>Clear\<close> the current cache map is empty, both
  versions are zero, the channels \<^verbatim>\<open>ddlEventCh\<close> and \<^verbatim>\<open>analyzeResultCh\<close> are empty,
  the session list is one fresh collector with empty maps, \<^verbatim>\<open>globalMap\<close> and
  \<^verbatim>\<open>rateMap\<close> are empty and the session's \<^verbatim>\<open>MaxChunkSize\<close> is 1. The query
  feedback, the channel \<^verbatim>\<open>loadMetaCh\<close> and the registry of needed columns are what
  they were.
\<close>

theorem Clear_resets:
  "Load (Clear s) = Return Map.empty
   \<and> LastVersion (Clear s) = 0 \<and> PrevLastVersion (Clear s) = 0
   \<and> ddlEventCh (Clear s) = [] \<and> analyzeResultCh (Clear s) = []
   \<and> MaxChunkSize (Clear s) = 1
   \<and> listHead (Clear s) = \<lparr>mapper = Map.empty, rateMap_collector = Map.empty\<rparr>
   \<and> globalMap (Clear s) = Map.empty \<and> rateMap (Clear s) = Map.empty
   \<and> feedback (Clear s) = feedback s \<and> loadMetaCh (Clear s) = loadMetaCh s
   \<and> histogramNeededColumns (Clear s) = histogramNeededColumns s"
  by (simp add: Clear_def Store_def Load_def discard_all_Nil)

text \<open>C9, as stated, fails: \<^verbatim>\<open>Clear\<close> assigns neither \<^verbatim>\<open>feedback\<close> nor
  \<^verbatim>\<open>loadMetaCh\<close>, so a handle that holds one feedback record and one load-meta
  notification still holds them afterwards.\<close>

theorem Clear_keeps_feedback_and_loadMetaCh:
  "feedback (Clear state9) = [QueryFeedback 1] \<and> loadMetaCh (Clear state9) = [LoadMeta 1]"
  by (simp add: Clear_def Store_def state9_def)

subsection \<open>One refresh cycle on one row\<close>

text \<open>
  C1. Let the query of a cycle return the one row (version 5, table 1, modify count 3,
  count 100), let the catalog know table 1, and let the reconstruction return an object
  for it (an object that carries the table ID 1). Then \<^verbatim>\<open>Update\<close> returns no error,
  the previous version is what the last version was before the cycle, the last version
  is 5, and the cache is the one before with table 1 mapped to a new object, which is
  the reconstructed one with \<^verbatim>\<open>Version\<close> 5, \<^verbatim>\<open>Count\<close> 100 and
  \<^verbatim>\<open>ModifyCount\<close> 3.
\<close>

theorem Update_one_row:
  assumes "ExecRestrictedSQL E (PrevLastVersion s)
             = Inr [\<lparr>version = 5, table_id = 1, modify_count = 3, count = 100\<rparr>]"
    and "is 1 = Some tableInfo"
    and "tableStatsFromStorage E tableInfo = Inr (Some tbl)"
    and "TableID tbl = 1"
    and "Load s = Return cache"
  shows "\<exists>s'. Update E is s = Return (None, s')
           \<and> PrevLastVersion s' = LastVersion s \<and> LastVersion s' = 5
           \<and> Load s' = Return (cache(1 \<mapsto> length (table_objs s)))
           \<and> Table_at s' (length (table_objs s))
                = Some (tbl\<lparr>Version := 5, Count := 100, ModifyCount := 3\<rparr>)"
proof -
  let ?p = "length (table_objs s)"
  let ?t = "tbl\<lparr>Version := 5, Count := 100, ModifyCount := 3\<rparr>"
  let ?s2 = "s\<lparr>PrevLastVersion := LastVersion s, LastVersion := 5,
               table_objs := table_objs s @ [?t]\<rparr>"
  have rows: "Update_rows E is [\<lparr>version = 5, table_id = 1, modify_count = 3, count = 100\<rparr>] [] []
                (s\<lparr>PrevLastVersion := LastVersion s\<rparr>) = ([?p], [], ?s2)"
    using assms(2,3) by (simp add: new_Table_def)
  have l: "Load ?s2 = Return cache"
    using assms(5) by (simp add: Load_Return_iff)
  have v: "\<forall>p \<in> set [?p]. p < length (table_objs ?s2)"
    by simp
  have new: "Replace ?s2 cache [?p] [] = cache(1 \<mapsto> ?p)"
    using assms(4) by (auto simp: Replace_def fun_eq_iff map_add_def restrict_map_def)
  have u: "Update E is s = Return (None, Store (cache(1 \<mapsto> ?p)) ?s2)"
    using assms(1) rows UpdateTableStats_Store [OF l v, of "[]"] new
    by (simp add: Update_def)
  have "Load (Store (cache(1 \<mapsto> ?p)) ?s2) = Return (cache(1 \<mapsto> ?p))"
    by (rule Load_Store)
  moreover have "Table_at (Store (cache(1 \<mapsto> ?p)) ?s2) ?p = Some ?t"
    by (simp add: Table_at_def Store_def)
  moreover have "PrevLastVersion (Store (cache(1 \<mapsto> ?p)) ?s2) = LastVersion s"
    "LastVersion (Store (cache(1 \<mapsto> ?p)) ?s2) = 5"
    by (simp_all add: Store_def)
  ultimately show ?thesis using u by blast
qed

theorem Update_one_row_witness:
  "\<exists>s'. Update env1 catalog1 (NewHandle 1024 3) = Return (None, s')
      \<and> PrevLastVersion s' = 0 \<and> LastVersion s' = 5
      \<and> Load s' = Return [1 \<mapsto> 0]
      \<and> Table_at s' 0 = Some \<lparr>TableID = 1, Version = 5, Count = 100, ModifyCount = 3,
                               Columns = Map.empty\<rparr>"
proof -
  have q: "ExecRestrictedSQL env1 (PrevLastVersion (NewHandle 1024 3))
             = Inr [\<lparr>version = 5, table_id = 1, modify_count = 3, count = 100\<rparr>]"
    by (simp add: ExecRestrictedSQL_def env1_def env0_def NewHandle_def Store_def)
  have c: "catalog1 1 = Some \<lparr>ID = 1, Name = ''t1''\<rparr>"
    by (simp add: catalog1_def)
  have r: "tableStatsFromStorage env1 \<lparr>ID = 1, Name = ''t1''\<rparr> = Inr (Some (table0 1))"
    by (simp add: env1_def env0_def)
  have i: "TableID (table0 1) = 1"
    by (simp add: table0_def)
  have l: "Load (NewHandle 1024 3) = Return Map.empty"
    by (simp add: NewHandle_def Load_Store)
  show ?thesis
    using Update_one_row [of env1 "NewHandle 1024 3" catalog1, OF q c r i l]
    by (simp add: NewHandle_def Store_def table0_def)
qed

subsection \<open>The loop of \<^verbatim>\<open>Update\<close>\<close>

lemma upt_shift: "[n..<Suc (n + m)] = n # [Suc n..<Suc (n + m)]"
  by (simp add: upt_conv_Cons)

lemma Update_rows_result:
  "Update_rows E is rows tables deleted s = (tables', deleted', s') \<Longrightarrow>
     tables' = tables @ [length (table_objs s)..<
                           length (table_objs s) + length (List.map_filter (row_object E is) rows)]
   \<and> deleted' = deleted @ map table_id (filter (row_removed E is) rows)
   \<and> table_objs s' = table_objs s @ List.map_filter (row_object E is) rows
   \<and> LastVersion s' = (if rows = [] then LastVersion s else version (last rows))
   \<and> PrevLastVersion s' = PrevLastVersion s
   \<and> statsCache s' = statsCache s \<and> cache_objs s' = cache_objs s"
proof (induction rows arbitrary: tables deleted s)
  case Nil
  then show ?case by simp
next
  case (Cons row rows)
  show ?case
  proof (cases "is (table_id row)")
    case None
    then have ro: "row_object E is row = None" "row_removed E is row"
      by (simp_all add: row_object_def row_removed_def)
    show ?thesis
      using None ro Cons.prems Cons.IH [of tables "deleted @ [table_id row]"
          "s\<lparr>LastVersion := version row, logs := logs s @ [UnknownTableID (table_id row)]\<rparr>"]
      by simp
  next
    case (Some tableInfo)
    show ?thesis
    proof (cases "tableStatsFromStorage E tableInfo")
      case (Inl err)
      then have ro: "row_object E is row = None" "\<not> row_removed E is row"
        using Some by (simp_all add: row_object_def row_removed_def)
      show ?thesis
        using Inl ro Some Cons.prems Cons.IH [of tables deleted
            "s\<lparr>LastVersion := version row,
               logs := logs s @ [ReadTableStatsError (Name tableInfo) err]\<rparr>"]
        by simp
    next
      case (Inr r)
      show ?thesis
      proof (cases r)
        case None
        then have ro: "row_object E is row = None" "row_removed E is row"
          using Some Inr by (simp_all add: row_object_def row_removed_def)
        show ?thesis
          using None ro Inr Some Cons.prems Cons.IH [of tables "deleted @ [table_id row]"
              "s\<lparr>LastVersion := version row\<rparr>"]
          by simp
      next
        case tb: (Some tbl)
        let ?t = "tbl\<lparr>Version := version row, Count := count row,
                      ModifyCount := modify_count row\<rparr>"
        have ro: "row_object E is row = Some ?t" "\<not> row_removed E is row"
          using Some Inr tb by (simp_all add: row_object_def row_removed_def)
        show ?thesis
          using tb ro Inr Some Cons.prems
            Cons.IH [of "tables @ [length (table_objs s)]" deleted
              "s\<lparr>LastVersion := version row, table_objs := table_objs s @ [?t]\<rparr>"]
          by (simp add: new_Table_def upt_shift del: upt_Suc)
      qed
    qed
  qed
qed

lemma Update_result:
  assumes q: "ExecRestrictedSQL E (PrevLastVersion s) = Inr rows" and l: "Load s = Return cache"
  shows "\<exists>s'. Update E is s = Return (None, s')
           \<and> PrevLastVersion s' = LastVersion s
           \<and> LastVersion s' = (if rows = [] then LastVersion s else version (last rows))
           \<and> table_objs s' = table_objs s @ List.map_filter (row_object E is) rows
           \<and> Load s' = Return (Replace s' cache
                 [length (table_objs s)..<
                    length (table_objs s) + length (List.map_filter (row_object E is) rows)]
                 (map table_id (filter (row_removed E is) rows)))"
proof -
  let ?s0 = "s\<lparr>PrevLastVersion := LastVersion s\<rparr>"
  obtain tables deleted s1 where r: "Update_rows E is rows [] [] ?s0 = (tables, deleted, s1)"
    by (cases "Update_rows E is rows [] [] ?s0") auto
  note f = Update_rows_result [OF r]
  let ?n = "length (table_objs s)"
  let ?objs = "List.map_filter (row_object E is) rows"
  have t: "tables = [?n..<?n + length ?objs]" and d: "deleted = map table_id (filter (row_removed E is) rows)"
    and o: "table_objs s1 = table_objs s @ ?objs"
    using f by simp_all
  have l1: "Load s1 = Return cache"
    using l f by (simp add: Load_Return_iff)
  have v: "\<forall>p \<in> set tables. p < length (table_objs s1)"
    using t o by simp
  let ?new = "Replace s1 cache tables deleted"
  have u: "Update E is s = Return (None, Store ?new s1)"
    using q r UpdateTableStats_Store [OF l1 v, of deleted] by (simp add: Update_def)
  have same: "Replace (Store ?new s1) cache tables deleted = ?new"
    by (simp add: Replace_def Store_def)
  have "PrevLastVersion (Store ?new s1) = LastVersion s"
    using f by (simp add: Store_def)
  moreover have "LastVersion (Store ?new s1) = (if rows = [] then LastVersion s else version (last rows))"
    using f by (simp add: Store_def)
  moreover have "table_objs (Store ?new s1) = table_objs s @ ?objs"
    using o by (simp add: Store_def)
  moreover have "Load (Store ?new s1) = Return (Replace (Store ?new s1) cache [?n..<?n + length ?objs]
                   (map table_id (filter (row_removed E is) rows)))"
    using same t d by (simp add: Load_Store)
  ultimately show ?thesis using u by blast
qed

subsection \<open>The two versions\<close>

lemma UpdateTableStats_fields:
  assumes "UpdateTableStats tables deleted s = Return s'"
  shows "LastVersion s' = LastVersion s \<and> PrevLastVersion s' = PrevLastVersion s
         \<and> table_objs s' = table_objs s"
proof -
  from assms obtain c where "s' = Store c s"
    by (auto simp: UpdateTableStats_def split: outcome.splits)
  then show ?thesis by (simp add: Store_def)
qed

lemma Update_watermarks:
  assumes "Update E is s = Return (r, s')"
  shows "(\<exists>err. ExecRestrictedSQL E (PrevLastVersion s) = Inl err \<and> r = Some err \<and> s' = s)
       \<or> (\<exists>rows. ExecRestrictedSQL E (PrevLastVersion s) = Inr rows \<and> r = None
             \<and> PrevLastVersion s' = LastVersion s
             \<and> LastVersion s' = (if rows = [] then LastVersion s else version (last rows)))"
proof (cases "ExecRestrictedSQL E (PrevLastVersion s)")
  case (Inl err)
  then show ?thesis using assms by (simp add: Update_def)
next
  case (Inr rows)
  let ?s0 = "s\<lparr>PrevLastVersion := LastVersion s\<rparr>"
  obtain tables deleted s1 where u: "Update_rows E is rows [] [] ?s0 = (tables, deleted, s1)"
    by (cases "Update_rows E is rows [] [] ?s0") auto
  note f = Update_rows_result [OF u]
  from assms Inr u have "UpdateTableStats tables deleted s1 = Return s'" and n: "r = None"
    by (simp_all add: Update_def split: outcome.splits)
  from UpdateTableStats_fields [OF this(1)] n show ?thesis using f Inr by simp
qed

lemma cycle_step:
  assumes "Update E is s = Return (r, s')" and "advancing E s" and "PrevLastVersion s \<le> LastVersion s"
  shows "LastVersion s \<le> LastVersion s' \<and> PrevLastVersion s \<le> PrevLastVersion s'
         \<and> PrevLastVersion s' \<le> LastVersion s'"
proof -
  from Update_watermarks [OF assms(1)] show ?thesis
  proof (elim disjE exE conjE)
    fix err assume "s' = s"
    then show ?thesis using assms(3) by simp
  next
    fix rows
    assume q: "ExecRestrictedSQL E (PrevLastVersion s) = Inr rows"
      and p: "PrevLastVersion s' = LastVersion s"
      and c: "LastVersion s' = (if rows = [] then LastVersion s else version (last rows))"
    from assms(2) q have "rows = [] \<or> LastVersion s \<le> version (last rows)"
      by (simp add: advancing_def)
    then show ?thesis using p c assms(3) by (cases "rows = []") simp_all
  qed
qed

lemma Update_success_watermarks:
 assumes u: "Update E is s = Return (None, s')"
  shows "PrevLastVersion s' = LastVersion s
      \<and> (\<exists>rows. ExecRestrictedSQL E (PrevLastVersion s) = Inr rows
            \<and> LastVersion s' = (if rows = [] then LastVersion s else version (last rows)))"
  using Update_watermarks [OF u] by blast

lemma cycles_watermarks:
  assumes "cycles s s''" and "PrevLastVersion s \<le> LastVersion s"
  shows "LastVersion s \<le> LastVersion s'' \<and> PrevLastVersion s \<le> PrevLastVersion s''
        \<and> PrevLastVersion s'' \<le> LastVersion s''"
  using assms
proof (induction rule: cycles.induct)
  case (cycles_none s)
  then show ?case by simp
next
  case (cycles_Update s s1 E catalog r s2)
  then have ih: "LastVersion s \<le> LastVersion s1" "PrevLastVersion s \<le> PrevLastVersion s1"
    "PrevLastVersion s1 \<le> LastVersion s1"
    by simp_all
  from cycle_step [OF cycles_Update.hyps(3) cycles_Update.hyps(2) ih(3)]
  have st: "LastVersion s1 \<le> LastVersion s2" "PrevLastVersion s1 \<le> PrevLastVersion s2"
    "PrevLastVersion s2 \<le> LastVersion s2"
    by simp_all
  from order_trans [OF ih(1) st(1)] order_trans [OF ih(2) st(2)] st(3)
  show ?case by simp
qed

text \<open>
  C2, as the code has it. A cycle whose query succeeds sets \<^verbatim>\<open>PrevLastVersion\<close> to
  the value \<^verbatim>\<open>LastVersion\<close> had before the cycle, and leaves \<^verbatim>\<open>LastVersion\<close> at the
  version of the last row of its batch (where it was, when the batch is empty). Over
  every sequence of cycles none of which moves the last version backwards, and that
  starts with the previous version at most the last one, both versions are
  nondecreasing and the previous version is at most the last one at the end.
\<close>

theorem watermarks_advance:
  "(Update E is s = Return (None, s') \<longrightarrow>
      PrevLastVersion s' = LastVersion s
      \<and> (\<exists>rows. ExecRestrictedSQL E (PrevLastVersion s) = Inr rows
            \<and> LastVersion s' = (if rows = [] then LastVersion s else version (last rows))))
   \<and> (cycles s s'' \<and> PrevLastVersion s \<le> LastVersion s \<longrightarrow>
        LastVersion s \<le> LastVersion s'' \<and> PrevLastVersion s \<le> PrevLastVersion s''
        \<and> PrevLastVersion s'' \<le> LastVersion s'')"
  using Update_success_watermarks [of E "is" s s'] cycles_watermarks [of s s''] by blast

subsection \<open>Rows above the previous version\<close>

lemma sorted_last_ge:
  "sorted (map f xs) \<Longrightarrow> x \<in> set xs \<Longrightarrow> f x \<le> f (last xs)"
  by (induction xs) auto

lemma sorted_last_Max:
  assumes "xs \<noteq> []" and "sorted (map f xs)"
  shows "f (last xs) = Max (f ` set xs)"
proof -
  have "Max (f ` set xs) = f (last xs)"
  proof (rule Max_eqI)
    show "finite (f ` set xs)" by simp
    show "f (last xs) \<in> f ` set xs" using assms(1) by simp
    fix y assume "y \<in> f ` set xs"
    then show "y \<le> f (last xs)" using sorted_last_ge [OF assms(2)] by auto
  qed
  then show ?thesis by simp
qed


lemma ExecRestrictedSQL_rows:
  assumes "stats_meta E = Inr stored"
  shows "\<exists>rows. ExecRestrictedSQL E floor = Inr rows
           \<and> set rows = {r \<in> set stored. floor < version r} \<and> sorted (map version rows)"
  using assms by (auto simp: ExecRestrictedSQL_def)


subsection \<open>Two cycles with no new rows\<close>

lemma Replace_nothing: "Replace s c [] [] = c"
  by (simp add: Replace_def restrict_map_def)

lemma Update_succeeds:
  assumes sm: "stats_meta E = Inr stored" and l: "Load s = Return cache"
  shows "\<exists>s' cache'. Update E is s = Return (None, s') \<and> Load s' = Return cache'
           \<and> PrevLastVersion s' = LastVersion s
           \<and> LastVersion s' =
               (if \<exists>r \<in> set stored. PrevLastVersion s < version r
                then Max (version ` {r \<in> set stored. PrevLastVersion s < version r})
                else LastVersion s)
           \<and> ((\<forall>r \<in> set stored. \<not> PrevLastVersion s < version r) \<longrightarrow>
                 cache' = cache \<and> table_objs s' = table_objs s)"
proof -
  from ExecRestrictedSQL_rows [OF sm, of "PrevLastVersion s"]
  obtain rows where q: "ExecRestrictedSQL E (PrevLastVersion s) = Inr rows"
    and rows: "set rows = {r' \<in> set stored. PrevLastVersion s < version r'}"
    and srt: "sorted (map version rows)"
    by blast
  let ?objs = "List.map_filter (row_object E is) rows"
  let ?n = "length (table_objs s)"
  let ?refs = "[?n..<?n + length ?objs]"
  let ?dels = "map table_id (filter (row_removed E is) rows)"
  from Update_result [OF q l, of "is"]
  obtain s' where u: "Update E is s = Return (None, s')"
    and pv: "PrevLastVersion s' = LastVersion s"
    and lv: "LastVersion s' = (if rows = [] then LastVersion s else version (last rows))"
    and objs: "table_objs s' = table_objs s @ ?objs"
    and ld: "Load s' = Return (Replace s' cache ?refs ?dels)"
    by blast
  have e: "rows = [] \<longleftrightarrow> \<not> (\<exists>r \<in> set stored. PrevLastVersion s < version r)"
  proof -
    have "rows = [] \<longleftrightarrow> set rows = {}" by simp
    also have "\<dots> \<longleftrightarrow> \<not> (\<exists>r \<in> set stored. PrevLastVersion s < version r)"
      unfolding rows by blast
    finally show ?thesis .
  qed
  have mx: "LastVersion s' =
               (if \<exists>r \<in> set stored. PrevLastVersion s < version r
                then Max (version ` {r \<in> set stored. PrevLastVersion s < version r})
                else LastVersion s)"
  proof (cases "rows = []")
    case True
    then show ?thesis using lv e by simp
  next
    case False
    then show ?thesis using lv e sorted_last_Max [OF False srt] rows by simp
  qed
  have same: "(\<forall>r \<in> set stored. \<not> PrevLastVersion s < version r) \<longrightarrow>
                 Replace s' cache ?refs ?dels = cache \<and> table_objs s' = table_objs s"
  proof
    assume "\<forall>r \<in> set stored. \<not> PrevLastVersion s < version r"
    then have "rows = []" using e by blast
    then show "Replace s' cache ?refs ?dels = cache \<and> table_objs s' = table_objs s"
      using objs by (simp add: Replace_nothing)
  qed
  show ?thesis
    by (intro exI conjI) (rule u ld pv mx same)+
qed

text \<open>
  C4, as the code has it. Let storage hold no row above \<^verbatim>\<open>LastVersion\<close> and, if it
  holds a row above \<^verbatim>\<open>PrevLastVersion\<close>, let it still hold a row whose version is
  \<^verbatim>\<open>LastVersion\<close>. Then two calls of \<^verbatim>\<open>Update\<close> in a row both succeed, the first
  leaves the last version where it was, and the second changes neither version, nor the
  cache, nor any table object.
\<close>

theorem Update_twice_no_new_rows:
  assumes sm: "stats_meta E = Inr stored" and l: "Load s = Return cache"
    and nonew: "\<forall>r \<in> set stored. version r \<le> LastVersion s"
    and kept: "(\<exists>r \<in> set stored. PrevLastVersion s < version r) \<longrightarrow>
               (\<exists>r \<in> set stored. version r = LastVersion s)"
  shows "\<exists>s1 s2. Update E is s = Return (None, s1) \<and> Update E is s1 = Return (None, s2)
           \<and> LastVersion s1 = LastVersion s
           \<and> LastVersion s2 = LastVersion s1 \<and> PrevLastVersion s2 = PrevLastVersion s1
           \<and> Load s2 = Load s1 \<and> table_objs s2 = table_objs s1"
proof -
  from Update_succeeds [OF sm l, of "is"]
  obtain s1 cache1 where u1: "Update E is s = Return (None, s1)"
    and l1: "Load s1 = Return cache1"
    and p1: "PrevLastVersion s1 = LastVersion s"
    and c1: "LastVersion s1 =
               (if \<exists>r \<in> set stored. PrevLastVersion s < version r
                then Max (version ` {r \<in> set stored. PrevLastVersion s < version r})
                else LastVersion s)"
    by blast
  have cur: "LastVersion s1 = LastVersion s"
  proof (cases "\<exists>r \<in> set stored. PrevLastVersion s < version r")
    case False
    then show ?thesis using c1 by simp
  next
    case True
    then obtain r0 where r0: "r0 \<in> set stored" "PrevLastVersion s < version r0" by blast
    from True kept obtain r where r: "r \<in> set stored" "version r = LastVersion s" by blast
    from r0 nonew have "version r0 \<le> LastVersion s" by blast
    with r0(2) have lt: "PrevLastVersion s < LastVersion s" by simp
    have "Max (version ` {r \<in> set stored. PrevLastVersion s < version r}) = LastVersion s"
    proof (rule Max_eqI)
      show "finite (version ` {r \<in> set stored. PrevLastVersion s < version r})" by simp
      show "LastVersion s \<in> version ` {r \<in> set stored. PrevLastVersion s < version r}"
        using r lt by (intro image_eqI [where x = r]) simp_all
      fix y assume "y \<in> version ` {r \<in> set stored. PrevLastVersion s < version r}"
      then show "y \<le> LastVersion s" using nonew by auto
    qed
    then show ?thesis using c1 True by simp
  qed
  have none: "\<forall>r \<in> set stored. \<not> PrevLastVersion s1 < version r"
    using nonew p1 by (simp add: not_less)
  from Update_succeeds [OF sm l1, of "is"]
  obtain s2 cache2 where u2: "Update E is s1 = Return (None, s2)"
    and l2: "Load s2 = Return cache2"
    and p2: "PrevLastVersion s2 = LastVersion s1"
    and c2: "LastVersion s2 =
               (if \<exists>r \<in> set stored. PrevLastVersion s1 < version r
                then Max (version ` {r \<in> set stored. PrevLastVersion s1 < version r})
                else LastVersion s1)"
    and k2: "(\<forall>r \<in> set stored. \<not> PrevLastVersion s1 < version r) \<longrightarrow>
                 cache2 = cache1 \<and> table_objs s2 = table_objs s1"
    by blast
  have a: "LastVersion s2 = LastVersion s1" using c2 none by simp
  have b: "PrevLastVersion s2 = PrevLastVersion s1" using p2 p1 cur by simp
  have c: "Load s2 = Load s1" using k2 none l1 l2 by simp
  have d: "table_objs s2 = table_objs s1" using k2 none by simp
  show ?thesis
    by (intro exI conjI) (rule u1 u2 cur a b c d)+
qed

subsection \<open>Cycles on concrete storage\<close>

lemma image_Collect_filter: "f ` {r \<in> set xs. P r} = set (map f (filter P xs))"
  by auto

lemmas Update_succeeds_list = Update_succeeds [unfolded image_Collect_filter]

lemma stats_meta_env_rows: "stats_meta (env_rows stored) = Inr stored"
  by (simp add: env_rows_def env0_def)

lemma Load_NewHandle: "Load (NewHandle ctx lease) = Return Map.empty"
  by (simp add: NewHandle_def Load_Store)

lemma versions_NewHandle: "LastVersion (NewHandle ctx lease) = 0" "PrevLastVersion (NewHandle ctx lease) = 0"
  by (simp_all add: NewHandle_def Store_def)

text \<open>C2, as stated, fails: from a new handle, a cycle that reads the one row of version
  12 and then a cycle that reads the one row of version 3 (a batch above the previous
  version 0, in ascending order) leave the previous version at 12 and the last version
  at 3.\<close>

theorem watermarks_can_go_back:
  "\<exists>s1 s2. Update (env_rows [rowB]) catalog_all (NewHandle 1024 3) = Return (None, s1)
      \<and> Update (env_rows [rowC]) catalog_all s1 = Return (None, s2)
      \<and> PrevLastVersion s1 = 0 \<and> LastVersion s1 = 12
      \<and> PrevLastVersion s2 = 12 \<and> LastVersion s2 = 3
      \<and> \<not> PrevLastVersion s2 \<le> LastVersion s2 \<and> \<not> LastVersion s1 \<le> LastVersion s2"
proof -
  from Update_succeeds_list [OF stats_meta_env_rows Load_NewHandle, of "[rowB]" catalog_all 1024 3]
  obtain s1 c1 where u1: "Update (env_rows [rowB]) catalog_all (NewHandle 1024 3) = Return (None, s1)"
    and l1: "Load s1 = Return c1" and p1: "PrevLastVersion s1 = 0" and v1: "LastVersion s1 = 12"
    by (auto simp: versions_NewHandle rowB_def)
  from Update_succeeds_list [OF stats_meta_env_rows l1, of "[rowC]" catalog_all]
  obtain s2 where u2: "Update (env_rows [rowC]) catalog_all s1 = Return (None, s2)"
    and p2: "PrevLastVersion s2 = 12" and v2: "LastVersion s2 = 3"
    by (auto simp: p1 v1 rowC_def)
  have n1: "\<not> PrevLastVersion s2 \<le> LastVersion s2" using p2 v2 by simp
  have n2: "\<not> LastVersion s1 \<le> LastVersion s2" using v1 v2 by simp
  show ?thesis
    by (intro exI conjI) (rule u1 u2 p1 v1 p2 v2 n1 n2)+
qed

theorem watermarks_advance_witness:
  "\<exists>s1 s2. Update (env_rows [rowB]) catalog_all (NewHandle 1024 3) = Return (None, s1)
      \<and> Update (env_rows [rowA, rowB]) catalog_all s1 = Return (None, s2)
      \<and> cycles (NewHandle 1024 3) s2
      \<and> PrevLastVersion (NewHandle 1024 3) \<le> LastVersion (NewHandle 1024 3)
      \<and> PrevLastVersion s1 = LastVersion (NewHandle 1024 3)
      \<and> LastVersion (NewHandle 1024 3) \<le> LastVersion s2
      \<and> PrevLastVersion (NewHandle 1024 3) \<le> PrevLastVersion s2
      \<and> PrevLastVersion s2 \<le> LastVersion s2
      \<and> PrevLastVersion s2 = 12 \<and> LastVersion s2 = 12"
proof -
  let ?s0 = "NewHandle 1024 3"
  from Update_succeeds_list [OF stats_meta_env_rows Load_NewHandle, of "[rowB]" catalog_all 1024 3]
  obtain s1 c1 where u1: "Update (env_rows [rowB]) catalog_all ?s0 = Return (None, s1)"
    and l1: "Load s1 = Return c1" and p1: "PrevLastVersion s1 = 0" and v1: "LastVersion s1 = 12"
    by (auto simp: versions_NewHandle rowB_def)
  from Update_succeeds_list [OF stats_meta_env_rows l1, of "[rowA, rowB]" catalog_all]
  obtain s2 where u2: "Update (env_rows [rowA, rowB]) catalog_all s1 = Return (None, s2)"
    and p2: "PrevLastVersion s2 = 12" and v2: "LastVersion s2 = 12"
    by (auto simp: p1 v1 rowA_def rowB_def)
  have a1: "advancing (env_rows [rowB]) ?s0"
    by (simp add: advancing_def ExecRestrictedSQL_def stats_meta_env_rows versions_NewHandle
        rowB_def)
  have a2: "advancing (env_rows [rowA, rowB]) s1"
    by (simp add: advancing_def ExecRestrictedSQL_def stats_meta_env_rows p1 v1 rowA_def rowB_def)
  have cy: "cycles ?s0 s2"
    by (rule cycles_Update [OF cycles_Update [OF cycles_none a1 u1] a2 u2])
  have i0: "PrevLastVersion ?s0 \<le> LastVersion ?s0"
    by (simp add: versions_NewHandle)
  from watermarks_advance [of "env_rows [rowB]" catalog_all ?s0 s1 s2] u1 cy i0
  have w: "PrevLastVersion s1 = LastVersion ?s0" "LastVersion ?s0 \<le> LastVersion s2"
    "PrevLastVersion ?s0 \<le> PrevLastVersion s2" "PrevLastVersion s2 \<le> LastVersion s2"
    by simp_all
  show ?thesis
    by (intro exI conjI) (rule u1 u2 cy i0 w p2 v2)+
qed


text \<open>C4, as stated, fails: a handle has incorporated the rows of versions 3 and 12;
  storage then holds the row of version 3 only. No row is new, and the second of two
  calls changes the previous version from 12 to 3.\<close>

theorem second_Update_moves_PrevLastVersion:
  "\<exists>s0 s1 s2. Update (env_rows [rowC, rowB]) catalog_all (NewHandle 1024 3) = Return (None, s0)
      \<and> LastVersion s0 = 12 \<and> version rowC \<le> LastVersion s0
      \<and> Update (env_rows [rowC]) catalog_all s0 = Return (None, s1)
      \<and> Update (env_rows [rowC]) catalog_all s1 = Return (None, s2)
      \<and> PrevLastVersion s1 = 12 \<and> PrevLastVersion s2 = 3
      \<and> PrevLastVersion s2 \<noteq> PrevLastVersion s1"
proof -
  from Update_succeeds_list [OF stats_meta_env_rows Load_NewHandle, of "[rowC, rowB]" catalog_all 1024 3]
  obtain s0 c0 where u0: "Update (env_rows [rowC, rowB]) catalog_all (NewHandle 1024 3) = Return (None, s0)"
    and l0: "Load s0 = Return c0" and p0: "PrevLastVersion s0 = 0" and v0: "LastVersion s0 = 12"
    by (auto simp: versions_NewHandle rowB_def rowC_def)
  from Update_succeeds_list [OF stats_meta_env_rows l0, of "[rowC]" catalog_all]
  obtain s1 c1 where u1: "Update (env_rows [rowC]) catalog_all s0 = Return (None, s1)"
    and l1: "Load s1 = Return c1" and p1: "PrevLastVersion s1 = 12" and v1: "LastVersion s1 = 3"
    by (auto simp: p0 v0 rowC_def)
  from Update_succeeds_list [OF stats_meta_env_rows l1, of "[rowC]" catalog_all]
  obtain s2 where u2: "Update (env_rows [rowC]) catalog_all s1 = Return (None, s2)"
    and p2: "PrevLastVersion s2 = 3"
    by (auto simp: p1 v1 rowC_def)
  have le: "version rowC \<le> LastVersion s0" by (simp add: v0 rowC_def)
  have ne: "PrevLastVersion s2 \<noteq> PrevLastVersion s1" by (simp add: p1 p2)
  show ?thesis
    by (intro exI conjI) (rule u0 v0 le u1 u2 p1 p2 ne)+
qed

theorem Update_twice_no_new_rows_witness:
  "\<exists>s0 s1 s2. Update (env_rows [rowA, rowB]) catalog_all (NewHandle 1024 3) = Return (None, s0)
      \<and> Update (env_rows [rowA, rowB]) catalog_all s0 = Return (None, s1)
      \<and> Update (env_rows [rowA, rowB]) catalog_all s1 = Return (None, s2)
      \<and> PrevLastVersion s0 = 0 \<and> LastVersion s0 = 12
      \<and> LastVersion s1 = LastVersion s0
      \<and> LastVersion s2 = LastVersion s1 \<and> PrevLastVersion s2 = PrevLastVersion s1
      \<and> Load s2 = Load s1 \<and> table_objs s2 = table_objs s1"
proof -
  let ?E = "env_rows [rowA, rowB]"
  from Update_succeeds_list [OF stats_meta_env_rows Load_NewHandle, of "[rowA, rowB]" catalog_all 1024 3]
  obtain s0 c0 where u0: "Update ?E catalog_all (NewHandle 1024 3) = Return (None, s0)"
    and l0: "Load s0 = Return c0" and p0: "PrevLastVersion s0 = 0" and v0: "LastVersion s0 = 12"
    by (auto simp: versions_NewHandle rowA_def rowB_def)
  have nonew: "\<forall>r \<in> set [rowA, rowB]. version r \<le> LastVersion s0"
    by (simp add: v0 rowA_def rowB_def)
  have kept: "(\<exists>r \<in> set [rowA, rowB]. PrevLastVersion s0 < version r) \<longrightarrow>
               (\<exists>r \<in> set [rowA, rowB]. version r = LastVersion s0)"
    by (simp add: v0 rowB_def)
  from Update_twice_no_new_rows [OF stats_meta_env_rows l0 nonew kept, of catalog_all]
  obtain s1 s2 where u1: "Update ?E catalog_all s0 = Return (None, s1)"
    and u2: "Update ?E catalog_all s1 = Return (None, s2)"
    and a: "LastVersion s1 = LastVersion s0"
    and b: "LastVersion s2 = LastVersion s1" and c: "PrevLastVersion s2 = PrevLastVersion s1"
    and d: "Load s2 = Load s1" and e: "table_objs s2 = table_objs s1"
    by blast
  show ?thesis
    by (intro exI conjI) (rule u0 u1 u2 p0 v0 a b c d e)+
qed

subsection \<open>\<^verbatim>\<open>FlushStats\<close>\<close>








subsection \<open>\<^verbatim>\<open>LoadNeededHistograms\<close>\<close>

lemma UpdateTableStats_registry:
  "UpdateTableStats tables deleted s = Return s' \<Longrightarrow>
   histogramNeededColumns s' = histogramNeededColumns s"
  by (auto simp: UpdateTableStats_def Store_def split: outcome.splits)

lemma col_Continue:
  assumes "LoadNeededHistograms_col E col s = Continue s'"
  shows "histogramNeededColumns s' = histogramNeededColumns s
       \<or> (histogramNeededColumns s' = removeAll col (histogramNeededColumns s) \<and> may_clear E s col)"
proof (cases "Load s")
  case Panic
  then show ?thesis using assms by (simp add: LoadNeededHistograms_col_def)
next
  case (Return cache)
  show ?thesis
  proof (cases "cache (tableID col)")
    case None
    then show ?thesis using assms Return by (simp add: LoadNeededHistograms_col_def)
  next
    case (Some p)
    show ?thesis
    proof (cases "Table_at s p")
      case None
      then show ?thesis using assms Return Some by (simp add: LoadNeededHistograms_col_def)
    next
      case t: (Some t)
      have cc: "cached_column s col = Some (Columns t (columnID col))"
        using Return Some t by (simp add: cached_column_def)
      show ?thesis
      proof (cases "Columns t (columnID col)")
        case None
        then show ?thesis
          using assms Return Some t cc
          by (auto simp: LoadNeededHistograms_col_def new_Table_def delete_col_def may_clear_def)
      next
        case c: (Some c)
        show ?thesis
        proof (cases "Len c > 0")
          case True
          then show ?thesis
            using assms Return Some t c cc
            by (auto simp: LoadNeededHistograms_col_def new_Table_def delete_col_def may_clear_def)
        next
          case False
          with assms Return Some t c
          obtain hg cms s2 where lr: "load_result E col c = Inr (hg, cms)"
            and u: "UpdateTableStats [length (table_objs s)] []
                      (set_Table (length (table_objs s))
                         (t\<lparr>Columns := (Columns t)(ID_hg (Histogram c) \<mapsto>
                                \<lparr>Histogram = hg, Info = Info c, CMSketch = cms,
                                 Count_col = totalRowCount E hg\<rparr>)\<rparr>)
                         (s\<lparr>table_objs := table_objs s @ [t]\<rparr>)) = Return s2"
            and s': "s' = delete_col col s2"
            by (auto simp: LoadNeededHistograms_col_def new_Table_def load_result_def
                split: sum.splits outcome.splits)
          from UpdateTableStats_registry [OF u]
          have "histogramNeededColumns s2 = histogramNeededColumns s"
            by (simp add: set_Table_def)
          then show ?thesis
            using s' lr cc c by (simp add: delete_col_def may_clear_def)
        qed
      qed
    qed
  qed
qed

lemma col_unloaded:
  assumes "cached_column s col = Some (Some c)" and "Len c = 0"
  shows "\<exists>t. LoadNeededHistograms_col E col s =
           (case load_result E col c of
              Inl err \<Rightarrow> Stop (Return (Some err, s\<lparr>table_objs := table_objs s @ [t]\<rparr>))
            | Inr (hg, cms) \<Rightarrow>
               (case UpdateTableStats [length (table_objs s)] []
                       (set_Table (length (table_objs s))
                          (t\<lparr>Columns := (Columns t)(ID_hg (Histogram c) \<mapsto>
                                 \<lparr>Histogram = hg, Info = Info c, CMSketch = cms,
                                  Count_col = totalRowCount E hg\<rparr>)\<rparr>)
                          (s\<lparr>table_objs := table_objs s @ [t]\<rparr>)) of
                  Panic \<Rightarrow> Stop Panic
                | Return s2 \<Rightarrow> Continue (delete_col col s2)))"
proof -
  from assms(1) obtain cache p t where "Load s = Return cache" "cache (tableID col) = Some p"
    "Table_at s p = Some t" "Columns t (columnID col) = Some c"
    by (auto simp: cached_column_def split: outcome.splits option.splits)
  with assms(2) have "LoadNeededHistograms_col E col s =
           (case load_result E col c of
              Inl err \<Rightarrow> Stop (Return (Some err, s\<lparr>table_objs := table_objs s @ [t]\<rparr>))
            | Inr (hg, cms) \<Rightarrow>
               (case UpdateTableStats [length (table_objs s)] []
                       (set_Table (length (table_objs s))
                          (t\<lparr>Columns := (Columns t)(ID_hg (Histogram c) \<mapsto>
                                 \<lparr>Histogram = hg, Info = Info c, CMSketch = cms,
                                  Count_col = totalRowCount E hg\<rparr>)\<rparr>)
                          (s\<lparr>table_objs := table_objs s @ [t]\<rparr>)) of
                  Panic \<Rightarrow> Stop Panic
                | Return s2 \<Rightarrow> Continue (delete_col col s2)))"
    by (simp add: LoadNeededHistograms_col_def new_Table_def load_result_def
        split: sum.splits)
  then show ?thesis by blast
qed

lemma col_Stop_unloaded:
  assumes "LoadNeededHistograms_col E col s = Stop (Return (r, s'))"
  shows "\<exists>c. cached_column s col = Some (Some c) \<and> Len c = 0"
  using assms
  by (auto simp: LoadNeededHistograms_col_def new_Table_def cached_column_def
      split: outcome.splits option.splits sum.splits if_splits)

lemma col_Stop:
  assumes "LoadNeededHistograms_col E col s = Stop (Return (r, s'))"
  shows "\<exists>c err. r = Some err \<and> cached_column s col = Some (Some c) \<and> Len c = 0
           \<and> load_result E col c = Inl err
           \<and> histogramNeededColumns s' = histogramNeededColumns s"
proof -
  from col_Stop_unloaded [OF assms] obtain c
    where c: "cached_column s col = Some (Some c)" "Len c = 0"
    by blast
  from col_unloaded [OF c, of E] obtain t where
    st: "LoadNeededHistograms_col E col s =
           (case load_result E col c of
              Inl err \<Rightarrow> Stop (Return (Some err, s\<lparr>table_objs := table_objs s @ [t]\<rparr>))
            | Inr (hg, cms) \<Rightarrow>
               (case UpdateTableStats [length (table_objs s)] []
                       (set_Table (length (table_objs s))
                          (t\<lparr>Columns := (Columns t)(ID_hg (Histogram c) \<mapsto>
                                 \<lparr>Histogram = hg, Info = Info c, CMSketch = cms,
                                  Count_col = totalRowCount E hg\<rparr>)\<rparr>)
                          (s\<lparr>table_objs := table_objs s @ [t]\<rparr>)) of
                  Panic \<Rightarrow> Stop Panic
                | Return s2 \<Rightarrow> Continue (delete_col col s2)))"
    by blast
  show ?thesis
  proof (cases "load_result E col c")
    case (Inl err)
    with st assms have "r = Some err" "s' = s\<lparr>table_objs := table_objs s @ [t]\<rparr>"
      by simp_all
    with c Inl show ?thesis by simp
  next
    case (Inr hc)
    with st assms show ?thesis
      by (cases hc) (simp split: outcome.splits)
  qed
qed

lemma col_fails:
  assumes "cached_column s col = Some (Some c)" and "Len c = 0" and "load_result E col c = Inl err"
  shows "\<exists>s'. LoadNeededHistograms_col E col s = Stop (Return (Some err, s'))
           \<and> histogramNeededColumns s' = histogramNeededColumns s"
  using col_unloaded [OF assms(1,2), of E] assms(3) by auto

lemma cols_append:
  "LoadNeededHistograms_cols E pre s = Return (None, s1) \<Longrightarrow>
   LoadNeededHistograms_cols E (pre @ post) s = LoadNeededHistograms_cols E post s1"
proof (induction pre arbitrary: s)
  case Nil
  then show ?case by simp
next
  case (Cons col pre)
  show ?case
  proof (cases "LoadNeededHistograms_col E col s")
    case (Continue s2)
    then show ?thesis using Cons by simp
  next
    case (Stop r)
    with Cons.prems have "LoadNeededHistograms_col E col s = Stop (Return (None, s1))" by simp
    from col_Stop [OF this] show ?thesis by simp
  qed
qed

lemma cols_cleared:
  "LoadNeededHistograms_cols E cols s = Return (r, s') \<Longrightarrow>
   x \<in> set (histogramNeededColumns s) \<Longrightarrow> x \<notin> set (histogramNeededColumns s') \<Longrightarrow>
   \<exists>pre post s1. cols = pre @ x # post
      \<and> LoadNeededHistograms_cols E pre s = Return (None, s1) \<and> may_clear E s1 x"
proof (induction cols arbitrary: s)
  case Nil
  then show ?case by simp
next
  case (Cons col cols)
  show ?case
  proof (cases "LoadNeededHistograms_col E col s")
    case (Stop r0)
    with Cons.prems(1) have "LoadNeededHistograms_col E col s = Stop (Return (r, s'))" by simp
    from col_Stop [OF this] Cons.prems(2,3) show ?thesis by auto
  next
    case (Continue s2)
    then have run: "LoadNeededHistograms_cols E cols s2 = Return (r, s')"
      using Cons.prems(1) by simp
    show ?thesis
    proof (cases "x \<in> set (histogramNeededColumns s2)")
      case True
      from Cons.IH [OF run True Cons.prems(3)]
      obtain pre post s1 where "cols = pre @ x # post"
        "LoadNeededHistograms_cols E pre s2 = Return (None, s1)" "may_clear E s1 x"
        by blast
      then have "col # cols = (col # pre) @ x # post
          \<and> LoadNeededHistograms_cols E (col # pre) s = Return (None, s1) \<and> may_clear E s1 x"
        using Continue by simp
      then show ?thesis by blast
    next
      case False
      with col_Continue [OF Continue] Cons.prems(2)
      have "x = col" and "may_clear E s col" by auto
      then have "col # cols = [] @ x # cols
          \<and> LoadNeededHistograms_cols E [] s = Return (None, s) \<and> may_clear E s x"
        by simp
      then show ?thesis by blast
    qed
  qed
qed

text \<open>
  C8, as the code has it. When the turn of a pending column comes (the columns before
  it done without error), its table is cached with the column unloaded and a read of
  its histogram or sketch fails, the call returns that error at once, whatever columns
  follow, and the registry is what it was when the column's turn came: its entry and
  those of the later columns remain. And whenever a call returns, every entry it has
  removed from the registry is that of a column which, when its turn came, was absent
  from the cached table, or already loaded there, or loaded with success.
\<close>

theorem LoadNeededHistograms_failure_and_registry:
  "(LoadNeededHistograms_cols E pre s = Return (None, s1)
      \<and> cached_column s1 col = Some (Some c) \<and> Len c = 0 \<and> load_result E col c = Inl err \<longrightarrow>
      (\<exists>s'. LoadNeededHistograms_cols E (pre @ col # post) s = Return (Some err, s')
          \<and> histogramNeededColumns s' = histogramNeededColumns s1))
   \<and> (LoadNeededHistograms_cols E cols s = Return (r, s') \<longrightarrow>
        (\<forall>x \<in> set (histogramNeededColumns s) - set (histogramNeededColumns s').
            \<exists>pre post s1. cols = pre @ x # post
              \<and> LoadNeededHistograms_cols E pre s = Return (None, s1) \<and> may_clear E s1 x))"
proof (intro conjI impI ballI)
  assume a: "LoadNeededHistograms_cols E pre s = Return (None, s1)
      \<and> cached_column s1 col = Some (Some c) \<and> Len c = 0 \<and> load_result E col c = Inl err"
  then have "\<exists>s'. LoadNeededHistograms_col E col s1 = Stop (Return (Some err, s'))
           \<and> histogramNeededColumns s' = histogramNeededColumns s1"
    using col_fails [of s1 col c E err] by simp
  then obtain s' where "LoadNeededHistograms_col E col s1 = Stop (Return (Some err, s'))"
    "histogramNeededColumns s' = histogramNeededColumns s1"
    by blast
  moreover from a have "LoadNeededHistograms_cols E (pre @ col # post) s
      = LoadNeededHistograms_cols E (col # post) s1"
    using cols_append [of E pre s s1 "col # post"] by simp
  ultimately show "\<exists>s'. LoadNeededHistograms_cols E (pre @ col # post) s = Return (Some err, s')
          \<and> histogramNeededColumns s' = histogramNeededColumns s1"
    by simp
next
  fix x
  assume "LoadNeededHistograms_cols E cols s = Return (r, s')"
    and "x \<in> set (histogramNeededColumns s) - set (histogramNeededColumns s')"
  then show "\<exists>pre post s1. cols = pre @ x # post
              \<and> LoadNeededHistograms_cols E pre s = Return (None, s1) \<and> may_clear E s1 x"
    using cols_cleared [of E cols s r s' x] by simp
qed

lemmas state8_simps = state8_def NewHandle_def Store_def table8_def column7_def column8_def
  pending_def env0_def

lemmas LoadNeededHistograms_simps = LoadNeededHistograms_def allCols_def
  LoadNeededHistograms_col_def Load_def Table_at_def new_Table_def delete_col_def Len_def

theorem LoadNeededHistograms_failure_and_registry_witness:
  "\<exists>s'. LoadNeededHistograms env0 (state8 [pending 7, pending 8, pending 9])
           = Return (Some (Error ''histogram''), s')
      \<and> histogramNeededColumns s' = [pending 8, pending 9]
      \<and> (\<exists>pre post s1. [pending 7, pending 8, pending 9] = pre @ pending 7 # post
            \<and> LoadNeededHistograms_cols env0 pre (state8 [pending 7, pending 8, pending 9])
                 = Return (None, s1)
            \<and> may_clear env0 s1 (pending 7))"
proof -
  let ?s = "state8 [pending 7, pending 8, pending 9]"
  let ?s1 = "(state8 [pending 8, pending 9])\<lparr>table_objs := [table8, table8]\<rparr>"
  have p: "LoadNeededHistograms_cols env0 [pending 7] ?s = Return (None, ?s1)"
    by (simp add: LoadNeededHistograms_simps state8_simps)
  have cc: "cached_column ?s1 (pending 8) = Some (Some column8)"
    by (simp add: cached_column_def Load_def Table_at_def state8_simps)
  have ln: "Len column8 = 0"
    by (simp add: Len_def column8_def)
  have lr: "load_result env0 (pending 8) column8 = Inl (Error ''histogram'')"
    by (simp add: load_result_def env0_def)
  from LoadNeededHistograms_failure_and_registry
         [of env0 "[pending 7]" ?s ?s1 "pending 8" column8 "Error ''histogram''" "[pending 9]",
          THEN conjunct1] p cc ln lr
  obtain s' where r: "LoadNeededHistograms_cols env0 [pending 7, pending 8, pending 9] ?s
                        = Return (Some (Error ''histogram''), s')"
    and h: "histogramNeededColumns s' = [pending 8, pending 9]"
    by (auto simp: state8_def)
  have x: "pending 7 \<in> set (histogramNeededColumns ?s) - set (histogramNeededColumns s')"
    by (simp add: h state8_def pending_def)
  from LoadNeededHistograms_failure_and_registry
         [of env0 _ ?s _ _ _ _ _ "[pending 7, pending 8, pending 9]" "Some (Error ''histogram'')" s',
          THEN conjunct2, rule_format, OF r x]
  have m: "\<exists>pre post s1. [pending 7, pending 8, pending 9] = pre @ pending 7 # post
            \<and> LoadNeededHistograms_cols env0 pre ?s = Return (None, s1)
            \<and> may_clear env0 s1 (pending 7)" .
  have "LoadNeededHistograms env0 ?s = Return (Some (Error ''histogram''), s')"
    using r by (simp add: LoadNeededHistograms_def allCols_def state8_def)
  with h m show ?thesis by blast
qed

text \<open>C8, as stated, fails: column 9 is pending, the cached table has no column 9 and
  no read from storage succeeds; the call returns no error and the entry is gone.\<close>

theorem LoadNeededHistograms_clears_absent_column:
  "LoadNeededHistograms env0 (state8 [pending 9])
     = Return (None, (state8 [])\<lparr>table_objs := [table8, table8]\<rparr>)
   \<and> cached_column (state8 [pending 9]) (pending 9) = Some None
   \<and> histogramNeededColumns (state8 [pending 9]) = [pending 9]"
  by (simp add: LoadNeededHistograms_simps cached_column_def state8_simps)

end
